theory Spec2Isabelle
  imports Main "HOL-Library.Word"
begin

unbundle bit_operations_syntax

section \<open>Metrics reporting bridge (monitoring.go)\<close>

text \<open>
  A shallow embedding of \<^verbatim>\<open>sdks/go/pkg/beam/core/runtime/harness/monitoring.go\<close>.
  Go's \<^verbatim>\<open>uint32\<close> is \<open>32 word\<close>, \<^verbatim>\<open>int64\<close> is \<open>64 word\<close> (read
  with \<open>sint\<close>), a byte is \<open>8 word\<close>. A Go map is a HOL map, a slice is a list (the nil
  slice is the empty list). A panic is a value of type \<open>panic\<close>: a function that can
  panic returns \<open>panic + 'a\<close>, and a function that mutates the short id cache returns the
  cache as it stands when the function returns or panics.
\<close>

subsection \<open>Panics and indexing\<close>

datatype panic =
    PanicString string      \<comment> \<open>\<^verbatim>\<open>panic("...")\<close> with a message\<close>
  | PanicError string       \<comment> \<open>\<^verbatim>\<open>panic(err)\<close> with an error value\<close>
  | IndexOutOfRange nat nat \<comment> \<open>the runtime error of \<^verbatim>\<open>xs[i]\<close> with \<^verbatim>\<open>i >= len(xs)\<close>\<close>

text \<open>\<^verbatim>\<open>xs[i]\<close> on a slice: the element, or the runtime panic.\<close>

definition index :: "'a list \<Rightarrow> nat \<Rightarrow> panic + 'a" where
  "index xs i = (if i < length xs then Inr (xs ! i) else Inl (IndexOutOfRange i (length xs)))"

text \<open>Sequencing of computations that can panic.\<close>

fun bindP :: "panic + 'a \<Rightarrow> ('a \<Rightarrow> panic + 'b) \<Rightarrow> panic + 'b" where
  "bindP (Inl p) f = Inl p"
| "bindP (Inr x) f = f x"

subsection \<open>Protocol schema registry\<close>

type_synonym mUrn = "32 word"
type_synonym mType = "32 word"
type_synonym int64 = "64 word"
type_synonym byte = "8 word"

definition sUrns :: "string list" where
  "sUrns =
    [''beam:metric:user:sum_int64:v1'',
     ''beam:metric:user:sum_double:v1'',
     ''beam:metric:user:distribution_int64:v1'',
     ''beam:metric:user:distribution_double:v1'',
     ''beam:metric:user:latest_int64:v1'',
     ''beam:metric:user:latest_double:v1'',
     ''beam:metric:user:top_n_int64:v1'',
     ''beam:metric:user:top_n_double:v1'',
     ''beam:metric:user:bottom_n_int64:v1'',
     ''beam:metric:user:bottom_n_double:v1'',
     ''beam:metric:element_count:v1'',
     ''beam:metric:sampled_byte_size:v1'',
     ''beam:metric:pardo_execution_time:start_bundle_msecs:v1'',
     ''beam:metric:pardo_execution_time:process_bundle_msecs:v1'',
     ''beam:metric:pardo_execution_time:finish_bundle_msecs:v1'',
     ''beam:metric:ptransform_execution_time:total_msecs:v1'',
     ''beam:metric:ptransform_progress:remaining:v1'',
     ''beam:metric:ptransform_progress:completed:v1'',
     ''TestingSentinelUrn'']"

definition urnUserSumInt64 :: mUrn where "urnUserSumInt64 = 0"
definition urnUserSumFloat64 :: mUrn where "urnUserSumFloat64 = 1"
definition urnUserDistInt64 :: mUrn where "urnUserDistInt64 = 2"
definition urnUserDistFloat64 :: mUrn where "urnUserDistFloat64 = 3"
definition urnUserLatestMsInt64 :: mUrn where "urnUserLatestMsInt64 = 4"
definition urnUserLatestMsFloat64 :: mUrn where "urnUserLatestMsFloat64 = 5"
definition urnUserTopNInt64 :: mUrn where "urnUserTopNInt64 = 6"
definition urnUserTopNFloat64 :: mUrn where "urnUserTopNFloat64 = 7"
definition urnUserBottomNInt64 :: mUrn where "urnUserBottomNInt64 = 8"
definition urnUserBottomNFloat64 :: mUrn where "urnUserBottomNFloat64 = 9"
definition urnElementCount :: mUrn where "urnElementCount = 10"
definition urnSampledByteSize :: mUrn where "urnSampledByteSize = 11"
definition urnStartBundle :: mUrn where "urnStartBundle = 12"
definition urnProcessBundle :: mUrn where "urnProcessBundle = 13"
definition urnFinishBundle :: mUrn where "urnFinishBundle = 14"
definition urnTransformTotalTime :: mUrn where "urnTransformTotalTime = 15"
definition urnProgressRemaining :: mUrn where "urnProgressRemaining = 16"
definition urnProgressCompleted :: mUrn where "urnProgressCompleted = 17"
definition urnTestSentinel :: mUrn where "urnTestSentinel = 18"

definition sTypes :: "string list" where
  "sTypes =
    [''beam:metrics:sum_int64:v1'',
     ''beam:metrics:sum_double:v1'',
     ''beam:metrics:distribution_int64:v1'',
     ''beam:metrics:distribution_double:v1'',
     ''beam:metrics:latest_int64:v1'',
     ''beam:metrics:latest_double:v1'',
     ''beam:metrics:top_n_int64:v1'',
     ''beam:metrics:top_n_double:v1'',
     ''beam:metrics:bottom_n_int64:v1'',
     ''beam:metrics:bottom_n_double:v1'',
     ''beam:metrics:monitoring_table:v1'',
     ''beam:metrics:progress:v1'',
     ''TestingSentinelType'']"

definition typeSumInt64 :: mType where "typeSumInt64 = 0"
definition typeSumFloat64 :: mType where "typeSumFloat64 = 1"
definition typeDistInt64 :: mType where "typeDistInt64 = 2"
definition typeDistFloat64 :: mType where "typeDistFloat64 = 3"
definition typeLatestMsInt64 :: mType where "typeLatestMsInt64 = 4"
definition typeLatestMsFloat64 :: mType where "typeLatestMsFloat64 = 5"
definition typeTopNInt64 :: mType where "typeTopNInt64 = 6"
definition typeTopNFloat64 :: mType where "typeTopNFloat64 = 7"
definition typeBottomNInt64 :: mType where "typeBottomNInt64 = 8"
definition typeBottomNFloat64 :: mType where "typeBottomNFloat64 = 9"
definition typeMonitoringTable :: mType where "typeMonitoringTable = 10"
definition typeProgress :: mType where "typeProgress = 11"
definition typeTestSentinel :: mType where "typeTestSentinel = 12"

text \<open>
  \<^verbatim>\<open>urnToType\<close>: the switch, case by case in the order of the source. The default
  case builds its message from \<^verbatim>\<open>sUrns[u]\<close>, an index expression that is evaluated
  before the call of \<^verbatim>\<open>panic\<close>.
\<close>

definition urnToType :: "mUrn \<Rightarrow> panic + mType" where
  "urnToType u =
    (if u \<in> {urnUserSumInt64, urnElementCount, urnStartBundle, urnProcessBundle,
              urnFinishBundle, urnTransformTotalTime} then Inr typeSumInt64
     else if u = urnUserSumFloat64 then Inr typeSumFloat64
     else if u \<in> {urnUserDistInt64, urnSampledByteSize} then Inr typeDistInt64
     else if u = urnUserDistFloat64 then Inr typeDistFloat64
     else if u = urnUserLatestMsInt64 then Inr typeLatestMsInt64
     else if u = urnUserLatestMsFloat64 then Inr typeLatestMsFloat64
     else if u = urnUserTopNInt64 then Inr typeTopNInt64
     else if u = urnUserTopNFloat64 then Inr typeTopNFloat64
     else if u = urnUserBottomNInt64 then Inr typeSumInt64
     else if u = urnUserBottomNFloat64 then Inr typeBottomNFloat64
     else if u \<in> {urnProgressRemaining, urnProgressCompleted} then Inr typeProgress
     else if u = urnTestSentinel then Inr typeTestSentinel
     else bindP (index sUrns (unat u))
            (\<lambda>s. Inl (PanicString (''metric urn without specified type'' @ s))))"


subsection \<open>Payload codec\<close>

text \<open>
  Modelled from the spec: \<^verbatim>\<open>coder.EncodeVarInt\<close> is called by the encoders and is not
  part of this file. The spec gives the encoding: base 128, 7 significant bits per byte,
  continuation bit in the high bit, least significant group first. The \<^verbatim>\<open>int64\<close> is
  encoded by its 64 bits, so a negative value takes ten bytes. The bytes go to the
  writer in one call of its \<^verbatim>\<open>Write\<close>, whose error is the error returned.
\<close>

function varint :: "int64 \<Rightarrow> byte list" where
  "varint v =
    (if drop_bit 7 v = 0 then [ucast (v AND 0x7f)]
     else ucast ((v AND 0x7f) OR 0x80) # varint (drop_bit 7 v))"
  by pat_completeness auto
termination
proof (relation "measure unat")
  fix v :: int64
  assume nz: "drop_bit 7 v \<noteq> 0"
  then have "v \<noteq> 0" by auto
  then have "0 < unat v" by (simp add: unat_gt_0)
  then have "unat v div 2 ^ 7 < unat v" by simp
  then show "(drop_bit 7 v, v) \<in> measure unat"
    by (simp add: drop_bit_eq_div unat_div)
qed simp

declare varint.simps [simp del]

definition EncodeVarInt ::
  "int64 \<Rightarrow> ('w \<Rightarrow> byte list \<Rightarrow> string + 'w) \<Rightarrow> 'w \<Rightarrow> string + 'w" where
  "EncodeVarInt v write w = write w (varint v)"

text \<open>
  \<^verbatim>\<open>bytes.Buffer\<close> of the Go library: the zero value is the empty buffer,
  \<^verbatim>\<open>Write\<close> appends and its error is always nil, \<^verbatim>\<open>Bytes\<close> is the content.
\<close>

type_synonym Buffer = "byte list"

definition Buffer_Write :: "Buffer \<Rightarrow> byte list \<Rightarrow> string + Buffer" where
  "Buffer_Write buf p = Inr (buf @ p)"

text \<open>The encoders return \<open>Inl err\<close> for \<^verbatim>\<open>(nil, err)\<close> and \<open>Inr bytes\<close> for \<^verbatim>\<open>(bytes, nil)\<close>.\<close>

definition int64Counter :: "int64 \<Rightarrow> string + byte list" where
  "int64Counter v =
    (case EncodeVarInt v Buffer_Write [] of
       Inl err \<Rightarrow> Inl err
     | Inr buf \<Rightarrow> Inr buf)"

text \<open>
  \<^verbatim>\<open>mtime.FromTime(t).Milliseconds()\<close> is not part of this file: the conversion of a
  \<^verbatim>\<open>time.Time\<close> to epoch milliseconds is the parameter \<open>millis\<close>.
\<close>

definition int64Latest :: "('time \<Rightarrow> int64) \<Rightarrow> 'time \<Rightarrow> int64 \<Rightarrow> string + byte list" where
  "int64Latest millis t v =
    (case EncodeVarInt (millis t) Buffer_Write [] of
       Inl err \<Rightarrow> Inl err
     | Inr buf1 \<Rightarrow>
        (case EncodeVarInt v Buffer_Write buf1 of
           Inl err \<Rightarrow> Inl err
         | Inr buf2 \<Rightarrow> Inr buf2))"

definition int64Distribution :: "int64 \<Rightarrow> int64 \<Rightarrow> int64 \<Rightarrow> int64 \<Rightarrow> string + byte list" where
  "int64Distribution count sum_v min_v max_v =
    (case EncodeVarInt count Buffer_Write [] of
       Inl err \<Rightarrow> Inl err
     | Inr buf1 \<Rightarrow>
        (case EncodeVarInt sum_v Buffer_Write buf1 of
           Inl err \<Rightarrow> Inl err
         | Inr buf2 \<Rightarrow>
            (case EncodeVarInt min_v Buffer_Write buf2 of
               Inl err \<Rightarrow> Inl err
             | Inr buf3 \<Rightarrow>
                (case EncodeVarInt max_v Buffer_Write buf3 of
                   Inl err \<Rightarrow> Inl err
                 | Inr buf4 \<Rightarrow> Inr buf4))))"

subsection \<open>Metric identities and metadata\<close>

text \<open>
  Modelled from the spec: \<^verbatim>\<open>metrics.Labels\<close> is declared outside this file. The spec
  gives the identity as transform id, namespace and name (with the URN, which
  \<^verbatim>\<open>shortKey\<close> adds); the fields carry the names of the accessors the code calls.
\<close>

record metrics_Labels =
  Transform :: string
  Namespace :: string
  Name :: string

text \<open>\<^verbatim>\<open>shortKey{l, urn}\<close>: the labels and the URN.\<close>

type_synonym shortKey = "metrics_Labels \<times> mUrn"

text \<open>
  \<^verbatim>\<open>ppb.MonitoringInfo\<close>, the fields this file sets. A payload that is not set is the
  nil slice.
\<close>

record MonitoringInfo =
  Urn :: string
  Type :: string
  Labels :: "string \<rightharpoonup> string"
  Payload :: "byte list"

definition userLabels :: "metrics_Labels \<Rightarrow> (string \<rightharpoonup> string)" where
  "userLabels l =
    [''PTRANSFORM'' \<mapsto> Transform l, ''NAMESPACE'' \<mapsto> Namespace l, ''NAME'' \<mapsto> Name l]"

subsection \<open>Short id cache\<close>

record shortIDCache =
  labels2ShortIds :: "shortKey \<rightharpoonup> string"
  shortIds2Infos :: "string \<rightharpoonup> MonitoringInfo"
  lastShortID :: int64

definition newShortIDCache :: shortIDCache where
  "newShortIDCache =
    \<lparr>labels2ShortIds = Map.empty, shortIds2Infos = Map.empty, lastShortID = 0\<rparr>"

text \<open>
  \<^verbatim>\<open>strconv.FormatInt\<close> of the Go library: the digits of the magnitude in the base,
  most significant first, after a minus sign for a negative number; a base outside
  2..36 panics.
\<close>

definition digits :: string where
  "digits = ''0123456789abcdefghijklmnopqrstuvwxyz''"

function formatBits :: "nat \<Rightarrow> nat \<Rightarrow> string" where
  "formatBits u b =
    (if b < 2 \<or> u < b then [digits ! u]
     else formatBits (u div b) b @ [digits ! (u mod b)])"
  by pat_completeness auto
termination
  by (relation "measure fst") auto

declare formatBits.simps [simp del]

definition FormatInt :: "int64 \<Rightarrow> nat \<Rightarrow> panic + string" where
  "FormatInt i base =
    (if base < 2 \<or> 36 < base then Inl (PanicString ''strconv: illegal AppendInt/FormatInt base'')
     else if sint i < 0 then Inr (CHR ''-'' # formatBits (nat (- sint i)) base)
     else Inr (formatBits (nat (sint i)) base))"

text \<open>\<^verbatim>\<open>atomic.AddInt64\<close> returns the new value; the addition wraps around.\<close>

definition getNextShortID :: "shortIDCache \<Rightarrow> shortIDCache \<times> (panic + string)" where
  "getNextShortID c =
    (let id = lastShortID c + 1
     in (c\<lparr>lastShortID := id\<rparr>, FormatInt id 36))"

text \<open>
  \<^verbatim>\<open>getShortID\<close>. On a miss the counter and the identity map are updated before the
  descriptor is built, so a panic while building it (\<^verbatim>\<open>sUrns[urn]\<close>,
  \<^verbatim>\<open>urnToType(urn)\<close>, \<^verbatim>\<open>sTypes[...]\<close>, in this order) leaves both updates in
  the cache.
\<close>

definition getShortID ::
  "shortIDCache \<Rightarrow> metrics_Labels \<Rightarrow> mUrn \<Rightarrow> shortIDCache \<times> (panic + string)" where
  "getShortID c l urn =
    (let k = (l, urn) in
     case labels2ShortIds c k of
       Some s \<Rightarrow> (c, Inr s)
     | None \<Rightarrow>
        (case getNextShortID c of
           (c1, Inl p) \<Rightarrow> (c1, Inl p)
         | (c1, Inr s) \<Rightarrow>
            (let c2 = c1\<lparr>labels2ShortIds := (labels2ShortIds c1)(k \<mapsto> s)\<rparr> in
             case bindP (index sUrns (unat urn)) (\<lambda>u.
                  bindP (urnToType urn) (\<lambda>t.
                  bindP (index sTypes (unat t)) (\<lambda>ty.
                  Inr \<lparr>Urn = u, Type = ty, Labels = userLabels l, Payload = []\<rparr>))) of
               Inl p \<Rightarrow> (c2, Inl p)
             | Inr info \<Rightarrow>
                (c2\<lparr>shortIds2Infos := (shortIds2Infos c2)(s \<mapsto> info)\<rparr>, Inr s))))"

text \<open>
  \<^verbatim>\<open>shortIdsToInfos\<close>: the result has every requested short id as a key; the value is
  the descriptor, or nil (\<open>None\<close>) for a short id the cache does not know.
\<close>

fun shortIdsToInfos_loop ::
  "shortIDCache \<Rightarrow> string list \<Rightarrow> (string \<rightharpoonup> MonitoringInfo option)
    \<Rightarrow> (string \<rightharpoonup> MonitoringInfo option)" where
  "shortIdsToInfos_loop c [] m = m"
| "shortIdsToInfos_loop c (s # ss) m = shortIdsToInfos_loop c ss (m(s \<mapsto> shortIds2Infos c s))"

definition shortIdsToInfos ::
  "shortIDCache \<Rightarrow> string list \<Rightarrow> (string \<rightharpoonup> MonitoringInfo option)" where
  "shortIdsToInfos c shortids = shortIdsToInfos_loop c shortids Map.empty"

subsection \<open>Snapshot builder\<close>

text \<open>
  Modelled from the spec: the metric store (\<^verbatim>\<open>metrics.Store\<close>) and the visitor
  \<^verbatim>\<open>metrics.Extractor.ExtractFrom\<close> are outside this file. The spec describes an
  opaque store with a push-style extraction of all current values over callbacks keyed by
  metric shape (scalar, distribution, gauge). The store is the list of its current
  values, in the order in which the extraction visits them; a panic of a callback ends
  the extraction. The type \<open>'time\<close> is Go's \<^verbatim>\<open>time.Time\<close>.
\<close>

datatype 'time metric =
    SumInt64 metrics_Labels int64
  | DistributionInt64 metrics_Labels int64 int64 int64 int64
  | GaugeInt64 metrics_Labels int64 'time

type_synonym 'time Store = "'time metric list"

text \<open>A callback works on a state \<open>'s\<close> and returns it with the panic, if it panicked.\<close>

fun visit ::
  "(metrics_Labels \<Rightarrow> int64 \<Rightarrow> 's \<Rightarrow> 's \<times> panic option)
    \<Rightarrow> (metrics_Labels \<Rightarrow> int64 \<Rightarrow> int64 \<Rightarrow> int64 \<Rightarrow> int64 \<Rightarrow> 's \<Rightarrow> 's \<times> panic option)
    \<Rightarrow> (metrics_Labels \<Rightarrow> int64 \<Rightarrow> 'time \<Rightarrow> 's \<Rightarrow> 's \<times> panic option)
    \<Rightarrow> 'time metric \<Rightarrow> 's \<Rightarrow> 's \<times> panic option" where
  "visit fSum fDist fGauge (SumInt64 l v) s = fSum l v s"
| "visit fSum fDist fGauge (DistributionInt64 l c sm mn mx) s = fDist l c sm mn mx s"
| "visit fSum fDist fGauge (GaugeInt64 l v t) s = fGauge l v t s"

fun ExtractFrom ::
  "(metrics_Labels \<Rightarrow> int64 \<Rightarrow> 's \<Rightarrow> 's \<times> panic option)
    \<Rightarrow> (metrics_Labels \<Rightarrow> int64 \<Rightarrow> int64 \<Rightarrow> int64 \<Rightarrow> int64 \<Rightarrow> 's \<Rightarrow> 's \<times> panic option)
    \<Rightarrow> (metrics_Labels \<Rightarrow> int64 \<Rightarrow> 'time \<Rightarrow> 's \<Rightarrow> 's \<times> panic option)
    \<Rightarrow> 'time Store \<Rightarrow> 's \<Rightarrow> 's \<times> panic option" where
  "ExtractFrom fSum fDist fGauge [] s = (s, None)"
| "ExtractFrom fSum fDist fGauge (m # ms) s =
    (case visit fSum fDist fGauge m s of
       (s', Some p) \<Rightarrow> (s', Some p)
     | (s', None) \<Rightarrow> ExtractFrom fSum fDist fGauge ms s')"

text \<open>
  The legacy report. \<^verbatim>\<open>Timestamp\<close> is the protobuf timestamp of a gauge;
  \<^verbatim>\<open>ProcessedElements\<close> is nil or holds, under \<^verbatim>\<open>Measured\<close>, the map
  \<^verbatim>\<open>OutputElementCounts\<close>.
\<close>

record Timestamp =
  Seconds :: int64
  Nanos :: "32 word"

datatype Metrics_User_Data =
    CounterData int64
  | DistributionData int64 int64 int64 int64
  | GaugeData int64 Timestamp

record Metrics_User_MetricName =
  MetricName_Name :: string
  MetricName_Namespace :: string

record Metrics_User =
  MetricName :: Metrics_User_MetricName
  Data :: Metrics_User_Data

record Metrics_PTransform =
  User :: "Metrics_User list"
  ProcessedElements :: "(string \<rightharpoonup> int64) option"

record Metrics =
  Ptransforms :: "string \<rightharpoonup> Metrics_PTransform"

text \<open>
  \<^verbatim>\<open>getTransform\<close> returns a pointer into the map. The model returns the map, with
  the new entry when it made one, and the entry; a write through the pointer is a write
  back under the same key (\<open>appendUser\<close>).
\<close>

definition getTransform ::
  "(string \<rightharpoonup> Metrics_PTransform) \<Rightarrow> metrics_Labels
    \<Rightarrow> (string \<rightharpoonup> Metrics_PTransform) \<times> Metrics_PTransform" where
  "getTransform transforms l =
    (case transforms (Transform l) of
       Some pb \<Rightarrow> (transforms, pb)
     | None \<Rightarrow>
        (let pb = \<lparr>User = [], ProcessedElements = None\<rparr>
         in (transforms(Transform l \<mapsto> pb), pb)))"

definition toName :: "metrics_Labels \<Rightarrow> Metrics_User_MetricName" where
  "toName l = \<lparr>MetricName_Name = Name l, MetricName_Namespace = Namespace l\<rparr>"

text \<open>
  \<^verbatim>\<open>pb := getTransform(transforms, l); pb.User = append(pb.User, &fnpb.Metrics_User{...})\<close>,
  the body that the three callbacks of the first pass share.
\<close>

definition appendUser ::
  "(string \<rightharpoonup> Metrics_PTransform) \<Rightarrow> metrics_Labels \<Rightarrow> Metrics_User_Data
    \<Rightarrow> (string \<rightharpoonup> Metrics_PTransform)" where
  "appendUser transforms l d =
    (case getTransform transforms l of
       (transforms', pb) \<Rightarrow>
         transforms'(Transform l \<mapsto> pb\<lparr>User := User pb @ [\<lparr>MetricName = toName l, Data = d\<rparr>]\<rparr>))"

definition legacySumInt64 ::
  "metrics_Labels \<Rightarrow> int64 \<Rightarrow> (string \<rightharpoonup> Metrics_PTransform)
    \<Rightarrow> (string \<rightharpoonup> Metrics_PTransform) \<times> panic option" where
  "legacySumInt64 l v transforms = (appendUser transforms l (CounterData v), None)"

definition legacyDistributionInt64 ::
  "metrics_Labels \<Rightarrow> int64 \<Rightarrow> int64 \<Rightarrow> int64 \<Rightarrow> int64 \<Rightarrow> (string \<rightharpoonup> Metrics_PTransform)
    \<Rightarrow> (string \<rightharpoonup> Metrics_PTransform) \<times> panic option" where
  "legacyDistributionInt64 l count sum_v min_v max_v transforms =
    (appendUser transforms l (DistributionData count sum_v min_v max_v), None)"

text \<open>
  \<^verbatim>\<open>ptypes.TimestampProto\<close> is outside this file: it is the parameter
  \<open>TimestampProto\<close>, which returns the timestamp or an error.
\<close>

definition legacyGaugeInt64 ::
  "('time \<Rightarrow> string + Timestamp) \<Rightarrow> metrics_Labels \<Rightarrow> int64 \<Rightarrow> 'time
    \<Rightarrow> (string \<rightharpoonup> Metrics_PTransform)
    \<Rightarrow> (string \<rightharpoonup> Metrics_PTransform) \<times> panic option" where
  "legacyGaugeInt64 TimestampProto l v t transforms =
    (case TimestampProto t of
       Inl err \<Rightarrow> (transforms, Some (PanicError err))
     | Inr ts \<Rightarrow> (appendUser transforms l (GaugeData v ts), None))"

text \<open>
  The second pass works on the cache, the list \<^verbatim>\<open>monitoringInfo\<close> and the map
  \<^verbatim>\<open>payloads\<close>. Its three callbacks differ in the encoder, the URN and the type;
  \<open>infoCallback\<close> is their common body, from the check of the encoder's error on.
\<close>

type_synonym infoState = "shortIDCache \<times> MonitoringInfo list \<times> (string \<rightharpoonup> byte list)"

definition infoCallback ::
  "mUrn \<Rightarrow> mType \<Rightarrow> metrics_Labels \<Rightarrow> string + byte list \<Rightarrow> infoState
    \<Rightarrow> infoState \<times> panic option" where
  "infoCallback urn typ l enc st =
    (case st of (c, monitoringInfo, payloads) \<Rightarrow>
      (case enc of
         Inl err \<Rightarrow> ((c, monitoringInfo, payloads), Some (PanicError err))
       | Inr payload \<Rightarrow>
          (case getShortID c l urn of
             (c', Inl p) \<Rightarrow> ((c', monitoringInfo, payloads), Some p)
           | (c', Inr s) \<Rightarrow>
              (let payloads' = payloads(s \<mapsto> payload) in
               case bindP (index sUrns (unat urn)) (\<lambda>u.
                    bindP (index sTypes (unat typ)) (\<lambda>ty.
                    Inr \<lparr>Urn = u, Type = ty, Labels = userLabels l, Payload = payload\<rparr>)) of
                 Inl p \<Rightarrow> ((c', monitoringInfo, payloads'), Some p)
               | Inr info \<Rightarrow> ((c', monitoringInfo @ [info], payloads'), None)))))"

definition infoSumInt64 ::
  "metrics_Labels \<Rightarrow> int64 \<Rightarrow> infoState \<Rightarrow> infoState \<times> panic option" where
  "infoSumInt64 l v = infoCallback urnUserSumInt64 typeSumInt64 l (int64Counter v)"

definition infoDistributionInt64 ::
  "metrics_Labels \<Rightarrow> int64 \<Rightarrow> int64 \<Rightarrow> int64 \<Rightarrow> int64 \<Rightarrow> infoState
    \<Rightarrow> infoState \<times> panic option" where
  "infoDistributionInt64 l count sum_v min_v max_v =
    infoCallback urnUserDistInt64 typeDistInt64 l (int64Distribution count sum_v min_v max_v)"

definition infoGaugeInt64 ::
  "('time \<Rightarrow> int64) \<Rightarrow> metrics_Labels \<Rightarrow> int64 \<Rightarrow> 'time \<Rightarrow> infoState
    \<Rightarrow> infoState \<times> panic option" where
  "infoGaugeInt64 millis l v t =
    infoCallback urnUserLatestMsInt64 typeLatestMsInt64 l (int64Latest millis t v)"

text \<open>
  \<^verbatim>\<open>exec.ProgressReportSnapshot\<close> with the four fields the code reads, and the plan:
  \<^verbatim>\<open>p.Store()\<close> is nil or a store, \<^verbatim>\<open>p.Progress()\<close> is a snapshot or not ok.
\<close>

record ProgressReportSnapshot =
  ID :: string
  Snapshot_Name :: string
  PID :: string
  Count :: int64

record 'time Plan =
  Store :: "'time Store option"
  Progress :: "ProgressReportSnapshot option"

text \<open>The part of \<^verbatim>\<open>monitoring\<close> under \<^verbatim>\<open>if snapshot, ok := p.Progress(); ok\<close>.\<close>

definition mergeProgress ::
  "ProgressReportSnapshot \<Rightarrow> (string \<rightharpoonup> Metrics_PTransform) \<Rightarrow> MonitoringInfo list
    \<Rightarrow> panic + ((string \<rightharpoonup> Metrics_PTransform) \<times> MonitoringInfo list)" where
  "mergeProgress snapshot transforms monitoringInfo =
    (let transforms' = transforms(ID snapshot \<mapsto>
           \<lparr>User = [],
            ProcessedElements = Some [Snapshot_Name snapshot \<mapsto> Count snapshot]\<rparr>)
     in case int64Counter (Count snapshot) of
          Inl err \<Rightarrow> Inr (transforms', monitoringInfo)
        | Inr payload \<Rightarrow>
            bindP (index sUrns (unat urnElementCount)) (\<lambda>u.
            bindP (index sTypes (unat typeSumInt64)) (\<lambda>ty.
            Inr (transforms',
                 monitoringInfo @
                   [\<lparr>Urn = u, Type = ty, Labels = [''PCOLLECTION'' \<mapsto> PID snapshot],
                     Payload = payload\<rparr>]))))"

text \<open>
  \<^verbatim>\<open>monitoring\<close>, on the default cache \<open>c\<close>. The result is the cache and either the
  panic or the three values returned: the report (\<open>None\<close> is nil), the list of
  monitoring infos, and the payload map (\<open>None\<close> is the nil map).
\<close>

definition monitoring ::
  "('time \<Rightarrow> string + Timestamp) \<Rightarrow> ('time \<Rightarrow> int64) \<Rightarrow> shortIDCache \<Rightarrow> 'time Plan
    \<Rightarrow> shortIDCache \<times>
        (panic + (Metrics option \<times> MonitoringInfo list \<times> (string \<rightharpoonup> byte list) option))" where
  "monitoring TimestampProto millis c p =
    (case Store p of
       None \<Rightarrow> (c, Inr (None, [], None))
     | Some store \<Rightarrow>
        (case ExtractFrom legacySumInt64 legacyDistributionInt64
                (legacyGaugeInt64 TimestampProto) store Map.empty of
           (transforms, Some pn) \<Rightarrow> (c, Inl pn)
         | (transforms, None) \<Rightarrow>
            (case ExtractFrom infoSumInt64 infoDistributionInt64 (infoGaugeInt64 millis)
                    store (c, [], Map.empty) of
               ((c', monitoringInfo, payloads), Some pn) \<Rightarrow> (c', Inl pn)
             | ((c', monitoringInfo, payloads), None) \<Rightarrow>
                (case Progress p of
                   None \<Rightarrow>
                     (c', Inr (Some \<lparr>Ptransforms = transforms\<rparr>, monitoringInfo, Some payloads))
                 | Some snapshot \<Rightarrow>
                    (case mergeProgress snapshot transforms monitoringInfo of
                       Inl pn \<Rightarrow> (c', Inl pn)
                     | Inr (transforms', monitoringInfo') \<Rightarrow>
                         (c', Inr (Some \<lparr>Ptransforms = transforms'\<rparr>, monitoringInfo',
                                   Some payloads)))))))"

subsection \<open>Runs of the cache and sample inputs\<close>

text \<open>
  A sequence of \<open>getShortID\<close> calls on one cache, each on the cache the previous call
  left (also when that call panicked and the panic was recovered), with the result of
  every call.
\<close>

fun getShortIDs ::
  "shortIDCache \<Rightarrow> shortKey list \<Rightarrow> shortIDCache \<times> (panic + string) list" where
  "getShortIDs c [] = (c, [])"
| "getShortIDs c ((l, urn) # ks) =
    (case getShortID c l urn of
       (c1, r) \<Rightarrow> (case getShortIDs c1 ks of (c2, rs) \<Rightarrow> (c2, r # rs)))"

text \<open>
  The states of the process-wide cache: \<open>newShortIDCache\<close> at \<^verbatim>\<open>init\<close>, and
  whatever a call of \<open>getShortID\<close> leaves. No other code writes to the cache.
\<close>

inductive reachable :: "shortIDCache \<Rightarrow> bool" where
  reachable_new: "reachable newShortIDCache"
| reachable_getShortID: "reachable c \<Longrightarrow> reachable (fst (getShortID c l urn))"

text \<open>
  The identity of the metric \<^verbatim>\<open>"n"\<close> in namespace \<^verbatim>\<open>"ns"\<close> on transform
  \<^verbatim>\<open>"t1"\<close>, and one instance of the two time conversions, for a time given as
  milliseconds since the epoch.
\<close>

definition exLabels :: metrics_Labels where
  "exLabels = \<lparr>Transform = ''t1'', Namespace = ''ns'', Name = ''n''\<rparr>"

definition exTimestampProto :: "int \<Rightarrow> string + Timestamp" where
  "exTimestampProto t =
    Inr \<lparr>Seconds = word_of_int (t div 1000), Nanos = word_of_int ((t mod 1000) * 1000000)\<rparr>"

definition exMillis :: "int \<Rightarrow> int64" where
  "exMillis t = word_of_int t"

text \<open>
  A user counter on transform \<^verbatim>\<open>"pc1"\<close> and the progress snapshot
  \<^verbatim>\<open>{ID: "pc1", Name: "pc1", PID: "pc1", Count: 42}\<close>.
\<close>

definition pc1Labels :: metrics_Labels where
  "pc1Labels = \<lparr>Transform = ''pc1'', Namespace = ''ns'', Name = ''n''\<rparr>"

definition pc1Snapshot :: ProgressReportSnapshot where
  "pc1Snapshot = \<lparr>ID = ''pc1'', Snapshot_Name = ''pc1'', PID = ''pc1'', Count = 42\<rparr>"

subsection \<open>Invariants of the cache\<close>

text \<open>
  Every short id bound to an identity with a declared URN has a descriptor. (A call with
  an undeclared URN panics after it has bound the short id and before it stores a
  descriptor.)
\<close>

definition descriptorsPresent :: "shortIDCache \<Rightarrow> bool" where
  "descriptorsPresent c =
    (\<forall>l urn s. unat urn < 19 \<longrightarrow> labels2ShortIds c (l, urn) = Some s \<longrightarrow>
       shortIds2Infos c s \<noteq> None)"

text \<open>
  A descriptor with its three fields set: a URN and a type from the tables, and the
  three labels of a user metric. Every descriptor the cache holds is of this kind.
\<close>

definition populated :: "MonitoringInfo \<Rightarrow> bool" where
  "populated info =
    (Urn info \<in> set sUrns \<and> Type info \<in> set sTypes \<and>
     dom (Labels info) = {''PTRANSFORM'', ''NAMESPACE'', ''NAME''})"

definition descriptorsPopulated :: "shortIDCache \<Rightarrow> bool" where
  "descriptorsPopulated c = (\<forall>s info. shortIds2Infos c s = Some info \<longrightarrow> populated info)"

text \<open>The state of the second pass: every key of the payload map has a descriptor.\<close>

definition payloadsDescribed :: "infoState \<Rightarrow> bool" where
  "payloadsDescribed st =
    (case st of (c, mi, pl) \<Rightarrow> reachable c \<and> dom pl \<subseteq> dom (shortIds2Infos c))"

text \<open>
  Every short id in the cache is the text of a counter value between 1 and the last one
  issued (as unsigned 64-bit numbers), and no two identities share a short id.
\<close>

definition tokensFresh :: "shortIDCache \<Rightarrow> bool" where
  "tokensFresh c =
    ((\<forall>k s. labels2ShortIds c k = Some s \<longrightarrow>
        (\<exists>w. w \<noteq> 0 \<and> w \<le> lastShortID c \<and> FormatInt w 36 = Inr s)) \<and>
     inj_on (labels2ShortIds c) (dom (labels2ShortIds c)))"

section \<open>Properties\<close>

subsection \<open>Tables and registry\<close>

lemmas urn_defs =
  urnUserSumInt64_def urnUserSumFloat64_def urnUserDistInt64_def urnUserDistFloat64_def
  urnUserLatestMsInt64_def urnUserLatestMsFloat64_def urnUserTopNInt64_def
  urnUserTopNFloat64_def urnUserBottomNInt64_def urnUserBottomNFloat64_def
  urnElementCount_def urnSampledByteSize_def urnStartBundle_def urnProcessBundle_def
  urnFinishBundle_def urnTransformTotalTime_def urnProgressRemaining_def
  urnProgressCompleted_def urnTestSentinel_def

lemmas type_defs =
  typeSumInt64_def typeSumFloat64_def typeDistInt64_def typeDistFloat64_def
  typeLatestMsInt64_def typeLatestMsFloat64_def typeTopNInt64_def typeTopNFloat64_def
  typeBottomNInt64_def typeBottomNFloat64_def typeMonitoringTable_def typeProgress_def
  typeTestSentinel_def

lemma length_sUrns: "length sUrns = 19"
  by (simp add: sUrns_def)

lemma length_sTypes: "length sTypes = 13"
  by (simp add: sTypes_def)

lemma small_urn: "unat (u::mUrn) < 19 \<Longrightarrow> u \<in> set (map of_nat [0..<19])"
proof -
  assume "unat u < 19"
  then have "unat u \<in> set [0..<19]" by simp
  then have "of_nat (unat u) \<in> (of_nat ` set [0..<19] :: mUrn set)"
    by (rule imageI)
  then show ?thesis by simp
qed

text \<open>
  The switch covers the nineteen declared URNs: on each of them \<open>urnToType\<close> returns a
  type that has a name in \<open>sTypes\<close>.
\<close>

lemma urnToType_supported: "unat u < 19 \<Longrightarrow> \<exists>t. urnToType u = Inr t \<and> unat t < 13"
  using small_urn[of u]
  by (auto simp add: urnToType_def urn_defs type_defs upt_rec)

text \<open>
  Every other value reaches the default case, where \<^verbatim>\<open>sUrns[u]\<close> is out of range:
  the panic is the runtime's, and the message of the source is never built.
\<close>

lemma urnToType_unsupported:
  "19 \<le> unat u \<Longrightarrow> urnToType u = Inl (IndexOutOfRange (unat u) 19)"
  by (auto simp add: urnToType_def urn_defs index_def length_sUrns)

text \<open>
  C5. Claimed: \<open>urnToType\<close> returns one wire type for each supported URN and, outside that
  set, panics with a protocol violation that identifies the offending URN. The first half
  is \<open>urnToType_supported\<close>. At the first value outside the set, \<^verbatim>\<open>mUrn(19)\<close>,
  the code panics with the index error of \<^verbatim>\<open>sUrns[19]\<close> and not with a message
  that names a URN.
\<close>

theorem urnToType_19_index_panic:
  "urnToType 19 = Inl (IndexOutOfRange 19 19)"
  by (simp add: urnToType_def urn_defs index_def length_sUrns)

text \<open>
  C6. Claimed: \<open>urnToType\<close> maps the user bottom-N int64 URN to the bottom-N int64 wire
  type. The code returns the sum-int64 type for it, so a descriptor of that URN gets the
  type name of a sum counter; \<open>typeBottomNInt64\<close> is returned for no URN at all.
\<close>

theorem urnToType_bottomN_is_sum:
  "urnToType urnUserBottomNInt64 = Inr typeSumInt64 \<and>
   typeSumInt64 \<noteq> typeBottomNInt64 \<and>
   index sTypes (unat typeSumInt64) = Inr ''beam:metrics:sum_int64:v1'' \<and>
   index sTypes (unat typeBottomNInt64) = Inr ''beam:metrics:bottom_n_int64:v1''"
  by (simp add: urnToType_def urn_defs type_defs index_def sTypes_def)

subsection \<open>Payload codec\<close>

lemma EncodeVarInt_Buffer: "EncodeVarInt v Buffer_Write buf = Inr (buf @ varint v)"
  by (simp add: EncodeVarInt_def Buffer_Write_def)

lemma int64Counter_varint: "int64Counter v = Inr (varint v)"
  by (simp add: int64Counter_def EncodeVarInt_Buffer)

lemma int64Distribution_varint:
  "int64Distribution c s mn mx = Inr (varint c @ varint s @ varint mn @ varint mx)"
  by (simp add: int64Distribution_def EncodeVarInt_Buffer)

lemma int64Latest_varint: "int64Latest millis t v = Inr (varint (millis t) @ varint v)"
  by (simp add: int64Latest_def EncodeVarInt_Buffer)

lemma varint_small:
  "varint 3 = [3]" "varint 30 = [30]" "varint 5 = [5]" "varint 15 = [15]"
  "varint 7 = [7]" "varint 42 = [42]" "varint 300 = [172, 2]"
  by (simp_all add: varint.simps drop_bit_eq_div)

text \<open>
  C3. Each encoder returns the concatenation of the varints of its fields in the order
  of its parameters: \<open>int64Distribution\<close> count, sum, min, max (at 3, 30, 5, 15 the four
  bytes 3, 30, 5, 15), and \<open>int64Latest\<close> the epoch milliseconds of the timestamp and
  then the value.
\<close>

theorem encoders_concatenate_varints:
  "int64Distribution c s mn mx = Inr (varint c @ varint s @ varint mn @ varint mx) \<and>
   int64Distribution 3 30 5 15 = Inr (varint 3 @ varint 30 @ varint 5 @ varint 15) \<and>
   int64Distribution 3 30 5 15 = Inr [3, 30, 5, 15] \<and>
   int64Latest millis t v = Inr (varint (millis t) @ varint v)"
  by (simp add: int64Distribution_varint int64Latest_varint varint_small)

subsection \<open>Short id cache\<close>

text \<open>
  C1. When a call of \<open>getShortID\<close> has returned a short id, a second call for the same
  labels and URN returns the same short id and leaves the cache, and with it the map
  from identities to short ids, as the first call left it.
\<close>

theorem getShortID_idempotent:
  "getShortID c l urn = (c1, Inr s) \<Longrightarrow> getShortID c1 l urn = (c1, Inr s)"
  by (auto simp add: getShortID_def getNextShortID_def Let_def
      split: option.splits sum.splits prod.splits)

theorem getShortID_idempotent_witness:
  "getShortID newShortIDCache exLabels urnUserSumInt64 =
     (fst (getShortID newShortIDCache exLabels urnUserSumInt64), Inr ''1'') \<and>
   getShortID (fst (getShortID newShortIDCache exLabels urnUserSumInt64)) exLabels urnUserSumInt64 =
     (fst (getShortID newShortIDCache exLabels urnUserSumInt64), Inr ''1'')"
proof -
  have first: "getShortID newShortIDCache exLabels urnUserSumInt64 =
     (fst (getShortID newShortIDCache exLabels urnUserSumInt64), Inr ''1'')"
    by (simp add: getShortID_def getNextShortID_def newShortIDCache_def FormatInt_def
        formatBits.simps digits_def index_def urnToType_def urn_defs type_defs sUrns_def
        sTypes_def)
  from first getShortID_idempotent [OF first] show ?thesis by simp
qed

lemma FormatInt_36_ok: "\<exists>s. FormatInt i 36 = Inr s"
  by (simp add: FormatInt_def)

lemma index_sUrns: "unat u < 19 \<Longrightarrow> index sUrns (unat u) = Inr (sUrns ! unat u)"
  by (simp add: index_def length_sUrns)

lemma index_sTypes: "unat t < 13 \<Longrightarrow> index sTypes (unat t) = Inr (sTypes ! unat t)"
  by (simp add: index_def length_sTypes)

text \<open>The three ways a call of \<open>getShortID\<close> can go.\<close>

lemma getShortID_hit:
  "labels2ShortIds c (l, urn) = Some s \<Longrightarrow> getShortID c l urn = (c, Inr s)"
  by (simp add: getShortID_def)

lemma getShortID_miss:
  assumes "labels2ShortIds c (l, urn) = None" "unat urn < 19"
  shows "\<exists>s t. FormatInt (lastShortID c + 1) 36 = Inr s \<and> urnToType urn = Inr t \<and>
     getShortID c l urn =
       (c\<lparr>lastShortID := lastShortID c + 1,
          labels2ShortIds := (labels2ShortIds c)((l, urn) \<mapsto> s),
          shortIds2Infos := (shortIds2Infos c)(s \<mapsto>
            \<lparr>Urn = sUrns ! unat urn, Type = sTypes ! unat t,
             Labels = userLabels l, Payload = []\<rparr>)\<rparr>, Inr s)"
proof -
  obtain s where s: "FormatInt (lastShortID c + 1) 36 = Inr s"
    using FormatInt_36_ok by blast
  obtain t where t: "urnToType urn = Inr t" "unat t < 13"
    using urnToType_supported[OF assms(2)] by blast
  show ?thesis
    using assms s t
    by (simp add: getShortID_def getNextShortID_def Let_def index_sUrns index_sTypes)
qed

lemma getShortID_miss_unsupported:
  assumes "labels2ShortIds c (l, urn) = None" "19 \<le> unat urn"
  shows "\<exists>s. FormatInt (lastShortID c + 1) 36 = Inr s \<and>
     getShortID c l urn =
       (c\<lparr>lastShortID := lastShortID c + 1,
          labels2ShortIds := (labels2ShortIds c)((l, urn) \<mapsto> s)\<rparr>,
        Inl (IndexOutOfRange (unat urn) 19))"
proof -
  obtain s where s: "FormatInt (lastShortID c + 1) 36 = Inr s"
    using FormatInt_36_ok by blast
  show ?thesis
    using assms s
    by (simp add: getShortID_def getNextShortID_def Let_def index_def length_sUrns)
qed

lemma getShortID_supported_returns:
  "unat urn < 19 \<Longrightarrow>
    \<exists>c' s. getShortID c l urn = (c', Inr s) \<and> labels2ShortIds c' (l, urn) = Some s"
proof (cases "labels2ShortIds c (l, urn)")
  case None
  assume "unat urn < 19"
  from getShortID_miss[OF None this] show ?thesis by auto
next
  case (Some s)
  then show ?thesis by (auto simp: getShortID_hit)
qed

subsection \<open>Callbacks of the second pass\<close>

lemma infoCallback_no_panic:
  assumes "unat urn < 19" "unat typ < 13"
  shows "snd (infoCallback urn typ l (Inr payload) st) = None"
proof -
  obtain c mi pl where st: "st = (c, mi, pl)" by (cases st) auto
  obtain c' s where g: "getShortID c l urn = (c', Inr s)"
    using getShortID_supported_returns[OF assms(1)] by blast
  show ?thesis
    using assms g by (simp add: st infoCallback_def index_sUrns index_sTypes Let_def)
qed

text \<open>
  C10. \<open>int64Counter\<close> and \<open>int64Distribution\<close> return bytes and a nil error for every
  input, since the write to the buffer returns no error; so the callbacks of the second
  pass for sums and distributions never take the branch that panics on the encoder's
  error (they do not panic at all).
\<close>

theorem int64_encoders_never_fail:
  "(\<exists>bs. int64Counter v = Inr bs) \<and>
   (\<exists>bs. int64Distribution c s mn mx = Inr bs) \<and>
   snd (infoSumInt64 l v st) = None \<and>
   snd (infoDistributionInt64 l c s mn mx st) = None"
  by (simp add: int64Counter_varint int64Distribution_varint infoSumInt64_def
      infoDistributionInt64_def infoCallback_no_panic urn_defs type_defs)

subsection \<open>Snapshot builder\<close>

lemma mergeProgress_eq:
  "mergeProgress snapshot transforms monitoringInfo =
     Inr (transforms(ID snapshot \<mapsto>
            \<lparr>User = [], ProcessedElements = Some [Snapshot_Name snapshot \<mapsto> Count snapshot]\<rparr>),
          monitoringInfo @
            [\<lparr>Urn = ''beam:metric:element_count:v1'', Type = ''beam:metrics:sum_int64:v1'',
              Labels = [''PCOLLECTION'' \<mapsto> PID snapshot],
              Payload = varint (Count snapshot)\<rparr>])"
  by (simp add: mergeProgress_def int64Counter_varint index_def urn_defs type_defs
      sUrns_def sTypes_def)

lemma infoSumInt64_eq:
  "getShortID c l urnUserSumInt64 = (c', Inr s) \<Longrightarrow>
   infoSumInt64 l v (c, mi, pl) =
     ((c', mi @ [\<lparr>Urn = ''beam:metric:user:sum_int64:v1'',
                  Type = ''beam:metrics:sum_int64:v1'',
                  Labels = userLabels l, Payload = varint v\<rparr>], pl(s \<mapsto> varint v)), None)"
  by (simp add: infoSumInt64_def infoCallback_def int64Counter_varint index_def urn_defs
      type_defs sUrns_def sTypes_def)

lemma legacySumInt64_empty:
  "legacySumInt64 l v Map.empty =
    ([Transform l \<mapsto> \<lparr>User = [\<lparr>MetricName = toName l, Data = CounterData v\<rparr>],
                        ProcessedElements = None\<rparr>], None)"
  by (simp add: legacySumInt64_def appendUser_def getTransform_def Let_def)

lemma getShortID_new_sum:
  "getShortID newShortIDCache l urnUserSumInt64 =
   (\<lparr>labels2ShortIds = [(l, urnUserSumInt64) \<mapsto> ''1''],
     shortIds2Infos = [''1'' \<mapsto> \<lparr>Urn = ''beam:metric:user:sum_int64:v1'',
        Type = ''beam:metrics:sum_int64:v1'', Labels = userLabels l, Payload = []\<rparr>],
     lastShortID = 1\<rparr>, Inr ''1'')"
  by (simp add: getShortID_def getNextShortID_def newShortIDCache_def FormatInt_def
      formatBits.simps digits_def index_def urnToType_def urn_defs type_defs sUrns_def
      sTypes_def)

lemma monitoring_fresh_sum:
  "monitoring tp ms newShortIDCache \<lparr>Store = Some [SumInt64 l v], Progress = None\<rparr> =
    (\<lparr>labels2ShortIds = [(l, urnUserSumInt64) \<mapsto> ''1''],
      shortIds2Infos = [''1'' \<mapsto> \<lparr>Urn = ''beam:metric:user:sum_int64:v1'',
         Type = ''beam:metrics:sum_int64:v1'', Labels = userLabels l, Payload = []\<rparr>],
      lastShortID = 1\<rparr>,
     Inr (Some \<lparr>Ptransforms = [Transform l \<mapsto>
              \<lparr>User = [\<lparr>MetricName = toName l, Data = CounterData v\<rparr>],
               ProcessedElements = None\<rparr>]\<rparr>,
          [\<lparr>Urn = ''beam:metric:user:sum_int64:v1'', Type = ''beam:metrics:sum_int64:v1'',
            Labels = userLabels l, Payload = varint v\<rparr>],
          Some [''1'' \<mapsto> varint v]))"
  by (simp add: monitoring_def legacySumInt64_empty infoSumInt64_eq[OF getShortID_new_sum])

text \<open>
  C7, as the code has it. Claimed: for an absent or empty store and no progress snapshot
  the result is \<^verbatim>\<open>(nil, nil, nil)\<close>. The code returns that for the nil store only
  (whatever the progress). For a store that is there and empty, with no progress
  snapshot, it goes through both passes and returns a report with an empty transform
  map, the nil list and an empty payload map made by \<^verbatim>\<open>make\<close>: all empty, the first
  and the third not nil. Neither case panics, and the cache is not touched.
\<close>

theorem monitoring_absent_or_empty_store:
  "(Store p = None \<longrightarrow> monitoring tp ms c p = (c, Inr (None, [], None))) \<and>
   (Store p = Some [] \<and> Progress p = None \<longrightarrow>
      monitoring tp ms c p =
        (c, Inr (Some \<lparr>Ptransforms = Map.empty\<rparr>, [], Some Map.empty)))"
  by (simp add: monitoring_def)

theorem monitoring_absent_or_empty_store_witness:
  "Store \<lparr>Store = None, Progress = None\<rparr> = (None :: int Store option) \<and>
   monitoring exTimestampProto exMillis newShortIDCache \<lparr>Store = None, Progress = None\<rparr> =
     (newShortIDCache, Inr (None, [], None)) \<and>
   Store \<lparr>Store = Some [], Progress = None\<rparr> = (Some [] :: int Store option) \<and>
   Progress \<lparr>Store = Some ([] :: int Store), Progress = None\<rparr> = None \<and>
   monitoring exTimestampProto exMillis newShortIDCache \<lparr>Store = Some [], Progress = None\<rparr> =
     (newShortIDCache, Inr (Some \<lparr>Ptransforms = Map.empty\<rparr>, [], Some Map.empty))"
  using
    monitoring_absent_or_empty_store
      [of "\<lparr>Store = None, Progress = None\<rparr>" exTimestampProto exMillis newShortIDCache]
    monitoring_absent_or_empty_store
      [of "\<lparr>Store = Some [], Progress = None\<rparr>" exTimestampProto exMillis newShortIDCache]
  by simp

text \<open>
  The claim as stated fails on the empty store: the values returned are not
  \<^verbatim>\<open>(nil, nil, nil)\<close>.
\<close>

theorem monitoring_empty_store_not_nil:
  "snd (monitoring exTimestampProto exMillis newShortIDCache
          \<lparr>Store = Some [], Progress = None\<rparr>) \<noteq> Inr (None, [], None)"
  by (simp add: monitoring_def)

text \<open>
  C4. For a store that holds the one user sum-int64 metric \<^verbatim>\<open>"n"\<close> of namespace
  \<^verbatim>\<open>"ns"\<close> on transform \<^verbatim>\<open>"t1"\<close> with value 7, from any cache and with or
  without a progress snapshot, \<open>monitoring\<close> returns; the list it returns contains the
  record with the user sum-int64 URN and exactly the labels PTRANSFORM \<^verbatim>\<open>"t1"\<close>,
  NAMESPACE \<^verbatim>\<open>"ns"\<close>, NAME \<^verbatim>\<open>"n"\<close>; and the payload map takes the short id that
  the cache binds to this identity to the encoded counter 7, the byte 7.
\<close>

theorem monitoring_sum_metric_record:
  "\<exists>c' m infos payloads s.
     monitoring tp ms c \<lparr>Store = Some [SumInt64 exLabels 7], Progress = prog\<rparr> =
       (c', Inr (Some m, infos, Some payloads)) \<and>
     \<lparr>Urn = ''beam:metric:user:sum_int64:v1'', Type = ''beam:metrics:sum_int64:v1'',
       Labels = [''PTRANSFORM'' \<mapsto> ''t1'', ''NAMESPACE'' \<mapsto> ''ns'', ''NAME'' \<mapsto> ''n''],
       Payload = [7]\<rparr> \<in> set infos \<and>
     labels2ShortIds c' (exLabels, urnUserSumInt64) = Some s \<and>
     payloads s = Some [7] \<and> int64Counter 7 = Inr [7]"
proof -
  obtain c' s where g: "getShortID c exLabels urnUserSumInt64 = (c', Inr s)"
     "labels2ShortIds c' (exLabels, urnUserSumInt64) = Some s"
    using getShortID_supported_returns[of urnUserSumInt64 c exLabels]
    by (auto simp: urn_defs)
  have ul: "userLabels exLabels =
      [''PTRANSFORM'' \<mapsto> ''t1'', ''NAMESPACE'' \<mapsto> ''ns'', ''NAME'' \<mapsto> ''n'']"
    by (simp add: userLabels_def exLabels_def)
  show ?thesis
  proof (cases prog)
    case None
    then show ?thesis using g
      by (simp add: monitoring_def legacySumInt64_empty infoSumInt64_eq[OF g(1)]
          varint_small ul int64Counter_varint)
  next
    case (Some snapshot)
    then show ?thesis using g
      by (simp add: monitoring_def legacySumInt64_empty infoSumInt64_eq[OF g(1)]
          varint_small ul int64Counter_varint mergeProgress_eq)
  qed
qed

text \<open>
  C8. Claimed: the progress snapshot is merged into the legacy tree, the user metric
  entries recorded under that transform staying as they are. The code assigns a new
  entry to \<^verbatim>\<open>transforms[snapshot.ID]\<close>, so the entries that the first pass
  recorded under this transform are gone: with a user counter on transform
  \<^verbatim>\<open>"pc1"\<close>, the entry of \<^verbatim>\<open>"pc1"\<close> holds the counter when there is no
  progress snapshot, and no user entry when the snapshot of \<^verbatim>\<open>"pc1"\<close> is given.
  The rest of the claim holds there: \<^verbatim>\<open>processedElements["pc1"] = 42\<close>, and one more
  record, with the element-count URN and the single label PCOLLECTION \<^verbatim>\<open>"pc1"\<close>.
\<close>

theorem monitoring_progress_drops_user_entries:
  "snd (monitoring exTimestampProto exMillis newShortIDCache
         \<lparr>Store = Some [SumInt64 pc1Labels 7], Progress = None\<rparr>) =
     Inr (Some \<lparr>Ptransforms = [''pc1'' \<mapsto>
              \<lparr>User = [\<lparr>MetricName = \<lparr>MetricName_Name = ''n'', MetricName_Namespace = ''ns''\<rparr>,
                        Data = CounterData 7\<rparr>],
               ProcessedElements = None\<rparr>]\<rparr>,
          [\<lparr>Urn = ''beam:metric:user:sum_int64:v1'', Type = ''beam:metrics:sum_int64:v1'',
            Labels = [''PTRANSFORM'' \<mapsto> ''pc1'', ''NAMESPACE'' \<mapsto> ''ns'', ''NAME'' \<mapsto> ''n''],
            Payload = [7]\<rparr>],
          Some [''1'' \<mapsto> [7]]) \<and>
   snd (monitoring exTimestampProto exMillis newShortIDCache
         \<lparr>Store = Some [SumInt64 pc1Labels 7], Progress = Some pc1Snapshot\<rparr>) =
     Inr (Some \<lparr>Ptransforms = [''pc1'' \<mapsto>
              \<lparr>User = [], ProcessedElements = Some [''pc1'' \<mapsto> 42]\<rparr>]\<rparr>,
          [\<lparr>Urn = ''beam:metric:user:sum_int64:v1'', Type = ''beam:metrics:sum_int64:v1'',
            Labels = [''PTRANSFORM'' \<mapsto> ''pc1'', ''NAMESPACE'' \<mapsto> ''ns'', ''NAME'' \<mapsto> ''n''],
            Payload = [7]\<rparr>,
           \<lparr>Urn = ''beam:metric:element_count:v1'', Type = ''beam:metrics:sum_int64:v1'',
            Labels = [''PCOLLECTION'' \<mapsto> ''pc1''], Payload = [42]\<rparr>],
          Some [''1'' \<mapsto> [7]])"
  by (simp add: monitoring_def legacySumInt64_empty infoSumInt64_eq[OF getShortID_new_sum]
      mergeProgress_eq varint_small userLabels_def toName_def pc1Labels_def pc1Snapshot_def)

subsection \<open>Descriptors of the short ids in use\<close>

lemma descriptorsPresent_new: "descriptorsPresent newShortIDCache"
  by (simp add: descriptorsPresent_def newShortIDCache_def)

lemma getShortID_descriptors:
  assumes "descriptorsPresent c"
  shows "descriptorsPresent (fst (getShortID c l urn)) \<and>
         dom (shortIds2Infos c) \<subseteq> dom (shortIds2Infos (fst (getShortID c l urn)))"
proof (cases "labels2ShortIds c (l, urn)")
  case (Some s)
  then show ?thesis using assms by (simp add: getShortID_hit)
next
  case None
  show ?thesis
  proof (cases "unat urn < 19")
    case True
    from getShortID_miss[OF None True] show ?thesis using assms
      by (elim exE conjE) (auto simp add: descriptorsPresent_def)
  next
    case False
    then have "19 \<le> unat urn" by simp
    from getShortID_miss_unsupported[OF None this] show ?thesis using assms False
      by (elim exE conjE) (auto simp add: descriptorsPresent_def)
  qed
qed

lemma reachable_descriptors: "reachable c \<Longrightarrow> descriptorsPresent c"
  by (induction rule: reachable.induct) (simp_all add: descriptorsPresent_new getShortID_descriptors)

lemma infoCallback_described:
  assumes "payloadsDescribed st" "unat urn < 19"
  shows "payloadsDescribed (fst (infoCallback urn typ l enc st))"
proof -
  obtain c mi pl where st: "st = (c, mi, pl)" by (cases st) auto
  from assms st have r: "reachable c" and d: "dom pl \<subseteq> dom (shortIds2Infos c)"
    by (simp_all add: payloadsDescribed_def)
  show ?thesis
  proof (cases enc)
    case (Inl err)
    then show ?thesis using assms by (simp add: st infoCallback_def)
  next
    case (Inr payload)
    obtain c' s where g: "getShortID c l urn = (c', Inr s)" "labels2ShortIds c' (l, urn) = Some s"
      using getShortID_supported_returns[OF assms(2)] by blast
    have c': "c' = fst (getShortID c l urn)" using g by simp
    have r': "reachable c'" unfolding c' using r by (rule reachable_getShortID)
    then have "descriptorsPresent c'" by (rule reachable_descriptors)
    with g(2) assms(2) have s: "s \<in> dom (shortIds2Infos c')"
      by (auto simp add: descriptorsPresent_def)
    have sub: "dom (shortIds2Infos c) \<subseteq> dom (shortIds2Infos c')"
      unfolding c' using getShortID_descriptors[OF reachable_descriptors[OF r]] by blast
    have "\<exists>mi'. fst (infoCallback urn typ l enc st) = (c', mi', pl(s \<mapsto> payload))"
      using g(1) Inr by (auto simp add: st infoCallback_def Let_def split: sum.splits)
    then obtain mi' where "fst (infoCallback urn typ l enc st) = (c', mi', pl(s \<mapsto> payload))"
      by blast
    then show ?thesis using r' s sub d by (auto simp add: payloadsDescribed_def)
  qed
qed

lemma visit_info_described:
  "payloadsDescribed st \<Longrightarrow>
   payloadsDescribed (fst (visit infoSumInt64 infoDistributionInt64 (infoGaugeInt64 ms) m st))"
  by (cases m)
     (simp_all add: infoSumInt64_def infoDistributionInt64_def infoGaugeInt64_def
        infoCallback_described urn_defs)

lemma ExtractFrom_info_described:
  "payloadsDescribed st \<Longrightarrow>
   payloadsDescribed (fst (ExtractFrom infoSumInt64 infoDistributionInt64 (infoGaugeInt64 ms) store st))"
proof (induction store arbitrary: st)
  case Nil
  then show ?case by simp
next
  case (Cons m store)
  let ?v = "visit infoSumInt64 infoDistributionInt64 (infoGaugeInt64 ms) m st"
  have v: "payloadsDescribed (fst ?v)" using Cons.prems by (rule visit_info_described)
  show ?case
  proof (cases "snd ?v")
    case None
    then have "ExtractFrom infoSumInt64 infoDistributionInt64 (infoGaugeInt64 ms) (m # store) st
       = ExtractFrom infoSumInt64 infoDistributionInt64 (infoGaugeInt64 ms) store (fst ?v)"
      by (cases ?v) simp
    then show ?thesis using Cons.IH[OF v] by simp
  next
    case (Some p)
    then have "ExtractFrom infoSumInt64 infoDistributionInt64 (infoGaugeInt64 ms) (m # store) st
       = (fst ?v, Some p)"
      by (cases ?v) simp
    then show ?thesis using v by simp
  qed
qed


lemma shortIdsToInfos_loop_eq:
  "shortIdsToInfos_loop c ss m s = (if s \<in> set ss then Some (shortIds2Infos c s) else m s)"
  by (induction ss arbitrary: m) auto

lemma shortIdsToInfos_eq:
  "shortIdsToInfos c ss s = (if s \<in> set ss then Some (shortIds2Infos c s) else None)"
  by (simp add: shortIdsToInfos_def shortIdsToInfos_loop_eq)

lemma monitoring_described:
  assumes "reachable c"
    and "monitoring tp ms c p = (c', Inr (m, infos, Some payloads))"
  shows "reachable c' \<and> dom payloads \<subseteq> dom (shortIds2Infos c')"
proof -
  from assms(2) obtain store where store: "Store p = Some store"
    by (cases "Store p") (simp_all add: monitoring_def)
  let ?e = "ExtractFrom infoSumInt64 infoDistributionInt64 (infoGaugeInt64 ms) store (c, [], Map.empty)"
  have "payloadsDescribed (c, [], Map.empty)"
    using assms(1) by (simp add: payloadsDescribed_def)
  then have d: "payloadsDescribed (fst ?e)" by (rule ExtractFrom_info_described)
  from assms(2) store have "\<exists>mi. fst ?e = (c', mi, payloads)"
    by (auto simp add: monitoring_def split: prod.splits option.splits sum.splits)
  then obtain mi where "fst ?e = (c', mi, payloads)" by blast
  with d show ?thesis by (simp add: payloadsDescribed_def)
qed

lemma monitoring_reachable: "reachable c \<Longrightarrow> reachable (fst (monitoring tp ms c p))"
proof -
  assume r: "reachable c"
  show ?thesis
  proof (cases "Store p")
    case None
    then show ?thesis using r by (simp add: monitoring_def)
  next
    case (Some store)
    let ?e = "ExtractFrom infoSumInt64 infoDistributionInt64 (infoGaugeInt64 ms) store (c, [], Map.empty)"
    have "payloadsDescribed (c, [], Map.empty)"
      using r by (simp add: payloadsDescribed_def)
    then have "payloadsDescribed (fst ?e)" by (rule ExtractFrom_info_described)
    then have "reachable (fst (fst ?e))" by (auto simp add: payloadsDescribed_def)
    moreover have "fst (monitoring tp ms c p) = c \<or> fst (monitoring tp ms c p) = fst (fst ?e)"
      using Some by (auto simp add: monitoring_def split: prod.splits option.splits sum.splits)
    ultimately show ?thesis using r by auto
  qed
qed

lemma dom_userLabels: "dom (userLabels l) = {''PTRANSFORM'', ''NAMESPACE'', ''NAME''}"
  by (auto simp add: userLabels_def)

lemma descriptorsPopulated_new: "descriptorsPopulated newShortIDCache"
  by (simp add: descriptorsPopulated_def newShortIDCache_def)

lemma getShortID_populated:
  assumes "descriptorsPopulated c"
  shows "descriptorsPopulated (fst (getShortID c l urn))"
proof (cases "labels2ShortIds c (l, urn)")
  case (Some s)
  then show ?thesis using assms by (simp add: getShortID_hit)
next
  case None
  show ?thesis
  proof (cases "unat urn < 19")
    case True
    then obtain t where t: "urnToType urn = Inr t" "unat t < 13"
      using urnToType_supported by blast
    have "populated \<lparr>Urn = sUrns ! unat urn, Type = sTypes ! unat t,
        Labels = userLabels l, Payload = []\<rparr>"
      using True t(2) by (simp add: populated_def dom_userLabels length_sUrns length_sTypes)
    with getShortID_miss[OF None True] t(1) show ?thesis using assms
      by (elim exE conjE) (auto simp add: descriptorsPopulated_def)
  next
    case False
    then have "19 \<le> unat urn" by simp
    from getShortID_miss_unsupported[OF None this] show ?thesis using assms
      by (elim exE conjE) (auto simp add: descriptorsPopulated_def)
  qed
qed

lemma reachable_populated: "reachable c \<Longrightarrow> descriptorsPopulated c"
  by (induction rule: reachable.induct) (simp_all add: descriptorsPopulated_new getShortID_populated)

text \<open>
  C9. From any state of the cache that the process can reach, when \<open>monitoring\<close> returns,
  every key of the payload map it returns has a descriptor in the cache it leaves, with
  its URN, type and labels set: a batch lookup of such short ids returns a descriptor,
  not nil, for each of them. (For the nil store the payload map is nil and has no key.)
\<close>

theorem payload_short_ids_have_descriptors:
  assumes "reachable c"
    and "monitoring tp ms c p = (c', Inr (m, infos, Some payloads))"
    and "set shortids \<subseteq> dom payloads"
  shows "\<forall>s \<in> set shortids.
    \<exists>info. shortIdsToInfos c' shortids s = Some (Some info) \<and> populated info"
proof
  fix s assume s: "s \<in> set shortids"
  from monitoring_described[OF assms(1,2)]
  have r: "reachable c'" and "dom payloads \<subseteq> dom (shortIds2Infos c')" by simp_all
  with assms(3) s have "s \<in> dom (shortIds2Infos c')" by blast
  then obtain info where i: "shortIds2Infos c' s = Some info" by blast
  with reachable_populated[OF r] have "populated info" by (simp add: descriptorsPopulated_def)
  with i s show "\<exists>info. shortIdsToInfos c' shortids s = Some (Some info) \<and> populated info"
    by (simp add: shortIdsToInfos_eq)
qed

theorem payload_short_ids_have_descriptors_witness:
  "\<exists>info. shortIdsToInfos
      (fst (monitoring exTimestampProto exMillis newShortIDCache
              \<lparr>Store = Some [SumInt64 exLabels 7], Progress = None\<rparr>))
      [''1''] ''1'' = Some (Some info) \<and> populated info"
proof -
  have "set [''1''] \<subseteq> dom [''1'' \<mapsto> varint 7]" by simp
  from payload_short_ids_have_descriptors[OF reachable_new monitoring_fresh_sum this]
  show ?thesis by (simp add: monitoring_fresh_sum)
qed

subsection \<open>Distinct identities, distinct short ids\<close>

text \<open>\<open>FormatInt\<close> in base 36 is injective: a short id determines the counter value.\<close>

lemma formatBits_small: "n < 36 \<Longrightarrow> formatBits n 36 = [digits ! n]"
  by (subst formatBits.simps) simp

lemma formatBits_large:
  "36 \<le> n \<Longrightarrow> formatBits n 36 = formatBits (n div 36) 36 @ [digits ! (n mod 36)]"
  by (subst formatBits.simps) simp

lemma length_digits: "length digits = 36"
  by (simp add: digits_def)

lemma distinct_digits: "distinct digits"
  by (simp add: digits_def)

lemma digit_inj: "a < 36 \<Longrightarrow> b < 36 \<Longrightarrow> digits ! a = digits ! b \<Longrightarrow> a = b"
  by (simp add: nth_eq_iff_index_eq distinct_digits length_digits)

lemma formatBits_nonempty: "formatBits n 36 \<noteq> []"
  by (cases "n < 36") (simp_all add: formatBits_small formatBits_large)

lemma formatBits_large_length: "36 \<le> n \<Longrightarrow> 2 \<le> length (formatBits n 36)"
proof -
  assume n: "36 \<le> n"
  have "1 \<le> length (formatBits (n div 36) 36)"
    using formatBits_nonempty[of "n div 36"] by (cases "formatBits (n div 36) 36") simp_all
  then show ?thesis by (simp add: formatBits_large[OF n])
qed

lemma formatBits_inj: "formatBits n 36 = formatBits m 36 \<Longrightarrow> n = m"
proof (induction n arbitrary: m rule: less_induct)
  case (less n)
  show ?case
  proof (cases "n < 36")
    case True
    show ?thesis
    proof (cases "m < 36")
      case m: True
      from less.prems True m show ?thesis
        by (simp add: formatBits_small digit_inj)
    next
      case False
      then have "2 \<le> length (formatBits m 36)" by (simp add: formatBits_large_length)
      moreover from less.prems True have "length (formatBits m 36) = 1"
        by (simp add: formatBits_small flip: less.prems)
      ultimately show ?thesis by simp
    qed
  next
    case False
    then have n: "36 \<le> n" by simp
    show ?thesis
    proof (cases "m < 36")
      case True
      from n have "2 \<le> length (formatBits n 36)" by (rule formatBits_large_length)
      with less.prems True show ?thesis by (simp add: formatBits_small)
    next
      case False
      then have m: "36 \<le> m" by simp
      from less.prems have eq: "formatBits (n div 36) 36 = formatBits (m div 36) 36"
        and d: "digits ! (n mod 36) = digits ! (m mod 36)"
        by (simp_all add: formatBits_large[OF n] formatBits_large[OF m])
      from n have "n div 36 < n" by simp
      from less.IH[OF this eq] have q: "n div 36 = m div 36" .
      from d have r: "n mod 36 = m mod 36" by (simp add: digit_inj)
      have "n = 36 * (n div 36) + n mod 36" by simp
      also have "\<dots> = 36 * (m div 36) + m mod 36" by (simp only: q r)
      also have "\<dots> = m" by simp
      finally show ?thesis .
    qed
  qed
qed

lemma formatBits_hd: "hd (formatBits n 36) \<in> set digits"
proof (induction n rule: less_induct)
  case (less n)
  show ?case
  proof (cases "n < 36")
    case True
    then show ?thesis by (simp add: formatBits_small length_digits)
  next
    case False
    then have n: "36 \<le> n" by simp
    then have "n div 36 < n" by simp
    from less.IH[OF this] show ?thesis
      by (simp add: formatBits_large[OF n] formatBits_nonempty)
  qed
qed

lemma minus_not_digit: "CHR ''-'' \<notin> set digits"
  by (simp add: digits_def)

lemma formatBits_no_minus:
  "formatBits n 36 \<noteq> CHR ''-'' # xs" "CHR ''-'' # xs \<noteq> formatBits n 36"
  using formatBits_hd[of n] minus_not_digit by (cases "formatBits n 36"; auto)+

lemma FormatInt_inj: "FormatInt i 36 = FormatInt j 36 \<Longrightarrow> i = j"
proof -
  assume eq: "FormatInt i 36 = FormatInt j 36"
  have "sint i = sint j"
  proof (cases "sint i < 0")
    case True
    show ?thesis
    proof (cases "sint j < 0")
      case j: True
      from eq True j have "nat (- sint i) = nat (- sint j)"
        by (simp add: FormatInt_def formatBits_inj)
      with True j show ?thesis by simp
    next
      case False
      with eq True show ?thesis
        by (simp add: FormatInt_def formatBits_no_minus)
    qed
  next
    case False
    show ?thesis
    proof (cases "sint j < 0")
      case True
      with eq False show ?thesis
        by (simp add: FormatInt_def formatBits_no_minus)
    next
      case j: False
      from eq False j have "nat (sint i) = nat (sint j)"
        by (simp add: FormatInt_def formatBits_inj)
      with False j show ?thesis by simp
    qed
  qed
  then show ?thesis by (rule signed_word_eqI)
qed

text \<open>How a call of \<open>getShortID\<close> changes the identity map and the counter.\<close>

lemma getShortID_cases:
  "(\<exists>s. labels2ShortIds c (l, urn) = Some s \<and> fst (getShortID c l urn) = c) \<or>
   (labels2ShortIds c (l, urn) = None \<and>
    (\<exists>s. FormatInt (lastShortID c + 1) 36 = Inr s \<and>
         labels2ShortIds (fst (getShortID c l urn)) = (labels2ShortIds c)((l, urn) \<mapsto> s) \<and>
         lastShortID (fst (getShortID c l urn)) = lastShortID c + 1))"
proof (cases "labels2ShortIds c (l, urn)")
  case (Some s)
  then show ?thesis by (simp add: getShortID_hit)
next
  case None
  show ?thesis
  proof (cases "unat urn < 19")
    case True
    from getShortID_miss[OF None True] show ?thesis using None
      by (elim exE conjE) simp
  next
    case False
    then have "19 \<le> unat urn" by simp
    from getShortID_miss_unsupported[OF None this] show ?thesis using None
      by (elim exE conjE) simp
  qed
qed

lemma getShortID_result_bound:
  "getShortID c l urn = (c', Inr s) \<Longrightarrow> labels2ShortIds c' (l, urn) = Some s"
  by (auto simp add: getShortID_def getNextShortID_def Let_def
      split: option.splits sum.splits prod.splits)

lemma getShortID_keeps:
  "labels2ShortIds c k = Some s \<Longrightarrow> labels2ShortIds (fst (getShortID c l urn)) k = Some s"
  using getShortID_cases[of c l urn] by auto

lemma next_counter_fresh:
  fixes x w :: int64
  assumes "unat x + 1 < 2 ^ 64" "w \<le> x"
  shows "x + 1 \<noteq> w" "x + 1 \<noteq> 0" "unat (x + 1) = unat x + 1" "w \<le> x + 1"
proof -
  show u: "unat (x + 1) = unat x + 1"
    using assms(1) by (simp add: unat_word_ariths)
  from assms(2) have "unat w \<le> unat x" by (simp add: word_le_nat_alt)
  with u have lt: "unat w < unat (x + 1)" by simp
  then show "x + 1 \<noteq> w" by auto
  from u show "x + 1 \<noteq> 0" by (metis Suc_eq_plus1 nat.distinct(1) unat_0)
  from lt show "w \<le> x + 1" by (simp add: word_le_nat_alt)
qed

lemma getShortID_tokensFresh:
  assumes "tokensFresh c" "unat (lastShortID c) + 1 < 2 ^ 64"
  shows "tokensFresh (fst (getShortID c l urn))"
proof -
  from getShortID_cases[of c l urn] show ?thesis
  proof
    assume "\<exists>s. labels2ShortIds c (l, urn) = Some s \<and> fst (getShortID c l urn) = c"
    then show ?thesis using assms(1) by auto
  next
    assume a: "labels2ShortIds c (l, urn) = None \<and>
      (\<exists>s. FormatInt (lastShortID c + 1) 36 = Inr s \<and>
         labels2ShortIds (fst (getShortID c l urn)) = (labels2ShortIds c)((l, urn) \<mapsto> s) \<and>
         lastShortID (fst (getShortID c l urn)) = lastShortID c + 1)"
    then obtain s where none: "labels2ShortIds c (l, urn) = None"
      and s: "FormatInt (lastShortID c + 1) 36 = Inr s"
      and m: "labels2ShortIds (fst (getShortID c l urn)) = (labels2ShortIds c)((l, urn) \<mapsto> s)"
      and n: "lastShortID (fst (getShortID c l urn)) = lastShortID c + 1"
      by blast
    let ?x = "lastShortID c"
    have old: "\<And>k t. labels2ShortIds c k = Some t \<Longrightarrow>
        \<exists>w. w \<noteq> 0 \<and> w \<le> ?x \<and> FormatInt w 36 = Inr t"
      using assms(1) unfolding tokensFresh_def by blast
    have inj: "inj_on (labels2ShortIds c) (dom (labels2ShortIds c))"
      using assms(1) by (simp add: tokensFresh_def)
    have fresh: "labels2ShortIds c k \<noteq> Some s" for k
    proof
      assume "labels2ShortIds c k = Some s"
      from old[OF this] obtain w where w: "w \<le> ?x" "FormatInt w 36 = Inr s" by blast
      with s have "FormatInt w 36 = FormatInt (?x + 1) 36" by simp
      then have "w = ?x + 1" by (rule FormatInt_inj)
      with next_counter_fresh(1)[OF assms(2) w(1)] show False by simp
    qed
    have below: "\<exists>w. w \<noteq> 0 \<and> w \<le> ?x + 1 \<and> FormatInt w 36 = Inr t"
      if "((labels2ShortIds c)((l, urn) \<mapsto> s)) k = Some t" for k t
    proof (cases "k = (l, urn)")
      case True
      with that have "t = s" by simp
      then show ?thesis
        using s next_counter_fresh(2)[OF assms(2) order_refl] by auto
    next
      case False
      with that have "labels2ShortIds c k = Some t" by simp
      from old[OF this] obtain w where "w \<noteq> 0" "w \<le> ?x" "FormatInt w 36 = Inr t" by blast
      then show ?thesis using next_counter_fresh(4)[OF assms(2)] by blast
    qed
    have inj': "inj_on ((labels2ShortIds c)((l, urn) \<mapsto> s))
        (dom ((labels2ShortIds c)((l, urn) \<mapsto> s)))"
    proof (rule inj_onI)
      fix a b
      assume a: "a \<in> dom ((labels2ShortIds c)((l, urn) \<mapsto> s))"
        and b: "b \<in> dom ((labels2ShortIds c)((l, urn) \<mapsto> s))"
        and eq: "((labels2ShortIds c)((l, urn) \<mapsto> s)) a = ((labels2ShortIds c)((l, urn) \<mapsto> s)) b"
      show "a = b"
      proof (cases "a = (l, urn)")
        case True
        show ?thesis
        proof (cases "b = (l, urn)")
          case True
          with \<open>a = (l, urn)\<close> show ?thesis by simp
        next
          case False
          with eq True have "labels2ShortIds c b = Some s" by simp
          with fresh show ?thesis by simp
        qed
      next
        case False
        show ?thesis
        proof (cases "b = (l, urn)")
          case True
          with eq False have "labels2ShortIds c a = Some s" by simp
          with fresh show ?thesis by simp
        next
          case bf: False
          from a False have "a \<in> dom (labels2ShortIds c)" by auto
          moreover from b bf have "b \<in> dom (labels2ShortIds c)" by auto
          moreover from eq False bf have "labels2ShortIds c a = labels2ShortIds c b" by simp
          ultimately show ?thesis using inj by (auto dest: inj_onD)
        qed
      qed
    qed
    show ?thesis
      unfolding tokensFresh_def m n using below inj' by blast
  qed
qed

lemma getShortID_counter:
  "unat (lastShortID c) + 1 < 2 ^ 64 \<Longrightarrow>
   unat (lastShortID (fst (getShortID c l urn))) \<le> unat (lastShortID c) + 1"
  using getShortID_cases[of c l urn] next_counter_fresh(3)[of "lastShortID c" "lastShortID c"]
  by auto

lemma tokensFresh_new: "tokensFresh newShortIDCache"
  by (simp add: tokensFresh_def newShortIDCache_def)

lemma getShortIDs_invariant:
  assumes "tokensFresh c" "unat (lastShortID c) + length ks < 2 ^ 64"
    "getShortIDs c ks = (c', rs)"
  shows "tokensFresh c' \<and> length rs = length ks \<and>
    (\<forall>k s. labels2ShortIds c k = Some s \<longrightarrow> labels2ShortIds c' k = Some s) \<and>
    (\<forall>i<length ks. \<forall>s. rs ! i = Inr s \<longrightarrow> labels2ShortIds c' (ks ! i) = Some s)"
  using assms
proof (induction ks arbitrary: c c' rs)
  case Nil
  then show ?case by simp
next
  case (Cons k ks)
  obtain l urn where k: "k = (l, urn)" by (cases k) auto
  let ?c1 = "fst (getShortID c l urn)"
  let ?r = "snd (getShortID c l urn)"
  obtain c2 rs' where rec: "getShortIDs ?c1 ks = (c2, rs')" by (cases "getShortIDs ?c1 ks") auto
  from Cons.prems(3) k rec have c': "c' = c2" and rs: "rs = ?r # rs'"
    by (simp_all add: case_prod_unfold)
  from Cons.prems(2) have b: "unat (lastShortID c) + 1 < 2 ^ 64" by simp
  have f1: "tokensFresh ?c1" using Cons.prems(1) b by (rule getShortID_tokensFresh)
  have "unat (lastShortID ?c1) \<le> unat (lastShortID c) + 1" using b by (rule getShortID_counter)
  with Cons.prems(2) have b1: "unat (lastShortID ?c1) + length ks < 2 ^ 64" by simp
  from Cons.IH[OF f1 b1 rec] have ih:
    "tokensFresh c2" "length rs' = length ks"
    "\<And>k s. labels2ShortIds ?c1 k = Some s \<Longrightarrow> labels2ShortIds c2 k = Some s"
    "\<And>i s. i < length ks \<Longrightarrow> rs' ! i = Inr s \<Longrightarrow> labels2ShortIds c2 (ks ! i) = Some s"
    by auto
  have keep: "labels2ShortIds c' k' = Some s" if "labels2ShortIds c k' = Some s" for k' s
    unfolding c' using ih(3)[OF getShortID_keeps[OF that]] .
  have res: "labels2ShortIds c' ((k # ks) ! i) = Some s"
    if "i < length (k # ks)" "rs ! i = Inr s" for i s
  proof (cases i)
    case 0
    with that rs have "?r = Inr s" by simp
    then have "getShortID c l urn = (?c1, Inr s)" by (simp add: prod_eq_iff)
    from getShortID_result_bound[OF this] have "labels2ShortIds ?c1 (l, urn) = Some s" .
    from ih(3)[OF this] show ?thesis using 0 k c' by simp
  next
    case (Suc j)
    with that rs show ?thesis using ih(4)[of j s] c' by simp
  qed
  show ?case using ih(1,2) c' rs keep res by auto
qed

lemma getShortIDs_two:
  "getShortIDs newShortIDCache [(exLabels, urnUserSumInt64), (exLabels, urnUserDistInt64)] =
    (\<lparr>labels2ShortIds =
        [(exLabels, urnUserSumInt64) \<mapsto> ''1'', (exLabels, urnUserDistInt64) \<mapsto> ''2''],
      shortIds2Infos =
        [''1'' \<mapsto> \<lparr>Urn = ''beam:metric:user:sum_int64:v1'',
                  Type = ''beam:metrics:sum_int64:v1'',
                  Labels = userLabels exLabels, Payload = []\<rparr>,
         ''2'' \<mapsto> \<lparr>Urn = ''beam:metric:user:distribution_int64:v1'',
                  Type = ''beam:metrics:distribution_int64:v1'',
                  Labels = userLabels exLabels, Payload = []\<rparr>],
      lastShortID = 2\<rparr>,
     [Inr ''1'', Inr ''2''])"
  by (simp add: getShortID_def getNextShortID_def newShortIDCache_def FormatInt_def
      formatBits.simps digits_def index_def urnToType_def urn_defs type_defs sUrns_def
      sTypes_def)

text \<open>
  C2. Take any sequence of \<open>getShortID\<close> calls on the cache of a process, from the new
  cache on, shorter than \<open>2 ^ 64\<close> calls (the 64-bit counter has then not wrapped
  around). The map from identities to short ids of the cache it leaves is injective, and
  any two calls of the sequence whose identities differ, in the labels or in the URN,
  and which both returned a short id, returned different short ids.
\<close>

theorem distinct_identities_distinct_short_ids:
  assumes "length ks < 2 ^ 64" and "getShortIDs newShortIDCache ks = (c', rs)"
  shows "inj_on (labels2ShortIds c') (dom (labels2ShortIds c')) \<and>
    (\<forall>i j s t. i < length ks \<and> j < length ks \<and> ks ! i \<noteq> ks ! j \<and>
        rs ! i = Inr s \<and> rs ! j = Inr t \<longrightarrow> s \<noteq> t)"
proof -
  have "unat (lastShortID newShortIDCache) + length ks < 2 ^ 64"
    using assms(1) by (simp add: newShortIDCache_def)
  from getShortIDs_invariant[OF tokensFresh_new this assms(2)]
  have f: "tokensFresh c'"
    and r: "\<And>i s. i < length ks \<Longrightarrow> rs ! i = Inr s \<Longrightarrow> labels2ShortIds c' (ks ! i) = Some s"
    by auto
  from f have inj: "inj_on (labels2ShortIds c') (dom (labels2ShortIds c'))"
    by (simp add: tokensFresh_def)
  have "s \<noteq> t" if "i < length ks" "j < length ks" "ks ! i \<noteq> ks ! j"
      "rs ! i = Inr s" "rs ! j = Inr t" for i j s t
  proof
    assume "s = t"
    with r[OF that(1,4)] r[OF that(2,5)]
    have "labels2ShortIds c' (ks ! i) = labels2ShortIds c' (ks ! j)"
      "ks ! i \<in> dom (labels2ShortIds c')" "ks ! j \<in> dom (labels2ShortIds c')" by auto
    with inj have "ks ! i = ks ! j" by (auto dest: inj_onD)
    with that(3) show False by simp
  qed
  with inj show ?thesis by blast
qed


theorem distinct_identities_distinct_short_ids_witness:
  "length [(exLabels, urnUserSumInt64), (exLabels, urnUserDistInt64)] < 2 ^ 64 \<and>
   snd (getShortIDs newShortIDCache
          [(exLabels, urnUserSumInt64), (exLabels, urnUserDistInt64)]) =
     [Inr ''1'', Inr ''2''] \<and>
   inj_on
     (labels2ShortIds (fst (getShortIDs newShortIDCache
          [(exLabels, urnUserSumInt64), (exLabels, urnUserDistInt64)])))
     (dom (labels2ShortIds (fst (getShortIDs newShortIDCache
          [(exLabels, urnUserSumInt64), (exLabels, urnUserDistInt64)])))) \<and>
   ''1'' \<noteq> ''2''"
proof -
  let ?ks = "[(exLabels, urnUserSumInt64), (exLabels, urnUserDistInt64)]"
  obtain c' rs where run: "getShortIDs newShortIDCache ?ks = (c', rs)"
    by (rule prod.exhaust)
  have rs: "rs = [Inr ''1'', Inr ''2'']"
    using run unfolding getShortIDs_two by simp
  have len: "length ?ks < 2 ^ 64" by simp
  note t = distinct_identities_distinct_short_ids[OF len run]
  from t have inj: "inj_on (labels2ShortIds c') (dom (labels2ShortIds c'))"
    by (rule conjunct1)
  from t have "0 < length ?ks \<and> 1 < length ?ks \<and> ?ks ! 0 \<noteq> ?ks ! 1 \<and>
      rs ! 0 = Inr ''1'' \<and> rs ! 1 = Inr ''2'' \<longrightarrow> ''1'' \<noteq> ''2''"
    by blast
  then have ne: "''1'' \<noteq> ''2''" by (simp add: rs urn_defs)
  show ?thesis
    unfolding run fst_conv snd_conv using len inj ne rs by (intro conjI)
qed

end
